theory Spec2Isabelle
  imports Main
begin

section \<open>Step descriptors and the step tree of the installation wizard\<close>

text \<open>
  A step descriptor of \<^verbatim>\<open>AnacondaWizard.jsx\<close> is a JavaScript object with the fields
  \<^verbatim>\<open>id\<close>, \<^verbatim>\<open>label\<close>, optionally \<^verbatim>\<open>component\<close>, optionally \<^verbatim>\<open>steps\<close> (the child
  descriptors of a group) and optionally \<^verbatim>\<open>isHidden\<close>. A field that is not set is
  \<^verbatim>\<open>undefined\<close> in JavaScript and \<open>None\<close> here. The component is kept by its name; the
  \<^verbatim>\<open>data\<close> props forwarded to it play no part in navigation and are left out. Labels
  go through \<^verbatim>\<open>cockpit.gettext\<close>; the model keeps the untranslated message.
\<close>

datatype step = Step
  (step_id: string)
  (label: string)
  (component: "string option")
  (steps: "step list option")
  (isHidden: "bool option")

text \<open>
  \<^verbatim>\<open>stepsOrder\<close> (lines 82 to 126): the step tree built on every render from the boot-mode
  flag and the selected storage scenario.
\<close>

definition stepsOrder :: "bool \<Rightarrow> string \<Rightarrow> step list" where
  "stepsOrder isBootIso storageScenarioId =
     (if isBootIso
      then [Step ''installation-language'' ''Welcome'' (Some ''InstallationLanguage'') None None]
      else []) @
     [Step ''installation-method'' ''Installation method'' (Some ''InstallationMethod'') None None,
      Step ''disk-configuration'' ''Disk configuration'' None
        (Some [Step ''mount-point-mapping'' ''Manual disk configuration'' (Some ''MountPointMapping'')
                 None (Some (storageScenarioId \<noteq> ''mount-point-mapping'')),
               Step ''disk-encryption'' ''Disk encryption'' (Some ''DiskEncryption'')
                 None (Some (storageScenarioId = ''mount-point-mapping''))])
        None,
      Step ''installation-review'' ''Review and install'' (Some ''ReviewConfiguration'') None None]"

text \<open>
  \<^verbatim>\<open>getFlattenedStepsIds\<close> (lines 128 to 142). The two nested \<^verbatim>\<open>for ... of\<close> loops push
  onto the array \<^verbatim>\<open>stepIds\<close>; each loop is a left fold whose accumulator is that array.
  \<^verbatim>\<open>step.steps\<close> is truthy for every array, the empty one included, and falsy when
  undefined. \<^verbatim>\<open>childStep?.isHidden !== true\<close> holds for \<^verbatim>\<open>false\<close> and for undefined.
  A child step is a descriptor: a \<^verbatim>\<open>null\<close> entry, on which \<^verbatim>\<open>childStep.id\<close> would raise,
  is not a value of the descriptor type.
\<close>

definition pushChildSteps :: "string list \<Rightarrow> step list \<Rightarrow> string list" where
  "pushChildSteps stepIds childSteps =
     foldl (\<lambda>acc childStep.
              if isHidden childStep \<noteq> Some True then acc @ [step_id childStep] else acc)
       stepIds childSteps"

definition getFlattenedStepsIds :: "step list \<Rightarrow> string list" where
  "getFlattenedStepsIds sts =
     foldl (\<lambda>stepIds st.
              case steps st of
                Some childSteps \<Rightarrow> pushChildSteps stepIds childSteps
              | None \<Rightarrow> stepIds @ [step_id st])
       [] sts"

text \<open>The ids of all descriptors of a tree, at every depth.\<close>

fun descriptor_ids :: "step \<Rightarrow> string list" where
  "descriptor_ids (Step i l c None h) = [i]"
| "descriptor_ids (Step i l c (Some cs) h) = i # concat (map descriptor_ids cs)"

definition tree_ids :: "step list \<Rightarrow> string list" where
  "tree_ids sts = concat (map descriptor_ids sts)"

text \<open>
  The flattened sequence as the specification words it, to be compared with the loops:
  a node with child steps contributes the ids of its children that are not hidden, any
  other node contributes its own id.
\<close>

definition spec_visibleChild :: "step \<Rightarrow> bool" where
  "spec_visibleChild c = (isHidden c \<noteq> Some True)"

definition spec_contributedIds :: "step \<Rightarrow> string list" where
  "spec_contributedIds st =
     (case steps st of
        Some cs \<Rightarrow> map step_id (filter spec_visibleChild cs)
      | None \<Rightarrow> [step_id st])"

section \<open>The navigation guard\<close>

text \<open>
  \<^verbatim>\<open>Array.prototype.findIndex\<close>: the index of the first element that satisfies the
  predicate, and \<open>-1\<close> when there is none.
\<close>

fun findIndexFrom :: "int \<Rightarrow> ('a \<Rightarrow> bool) \<Rightarrow> 'a list \<Rightarrow> int" where
  "findIndexFrom i p [] = - 1"
| "findIndexFrom i p (x # xs) = (if p x then i else findIndexFrom (i + 1) p xs)"

definition findIndex :: "('a \<Rightarrow> bool) \<Rightarrow> 'a list \<Rightarrow> int" where
  "findIndex p xs = findIndexFrom 0 p xs"

text \<open>
  \<^verbatim>\<open>isFinishedStep\<close> and \<^verbatim>\<open>canJumpToStep\<close> (lines 148 to 157) close over
  \<^verbatim>\<open>flattenedStepsIds\<close>; here it is their first argument.
\<close>

definition isFinishedStep :: "string list \<Rightarrow> string \<Rightarrow> bool" where
  "isFinishedStep flattenedStepsIds stepId =
     (let stepIdx = findIndex (\<lambda>s. s = stepId) flattenedStepsIds
      in stepIdx = int (length flattenedStepsIds) - 1)"

definition canJumpToStep :: "string list \<Rightarrow> string \<Rightarrow> string \<Rightarrow> bool" where
  "canJumpToStep flattenedStepsIds stepId currentStepId =
     (let stepIdx = findIndex (\<lambda>s. s = stepId) flattenedStepsIds;
          currentStepIdx = findIndex (\<lambda>s. s = currentStepId) flattenedStepsIds
      in stepIdx \<le> currentStepIdx)"

section \<open>State of the wizard, of its footer and of the wizard library\<close>

text \<open>
  A JavaScript object that is only spread or logged (the error handed to \<^verbatim>\<open>onFail\<close>) is
  the map of its own enumerable properties.
\<close>

type_synonym jsobj = "string \<rightharpoonup> string"

record encryption =
  encrypt :: bool
  password :: string

text \<open>
  A step object of the wizard library, as \<^verbatim>\<open>useWizardContext\<close> hands out the active step
  and as \<^verbatim>\<open>onStepChange\<close> receives the new and the previous step: the file reads its
  \<^verbatim>\<open>id\<close> and its \<^verbatim>\<open>name\<close>.
\<close>

record wizard_step =
  ident :: string
  name :: string

text \<open>
  The \<^verbatim>\<open>prevStep\<close> argument of \<^verbatim>\<open>goToStep\<close> as that function reads it, through the
  properties \<^verbatim>\<open>prevId\<close> and \<^verbatim>\<open>prevName\<close>. A property that the object does not have reads
  as \<^verbatim>\<open>undefined\<close>, which is \<open>None\<close>.
\<close>

record prev_step =
  prevId :: "string option"
  prevName :: "string option"

text \<open>
  An object that React compares with \<^verbatim>\<open>Object.is\<close> is a pair of its identity and its
  content. Objects received through props and arrays allocated during a render have
  identities of two different kinds.
\<close>

datatype identity = PropObj nat | RenderObj nat

record storageData =
  devices :: "identity \<times> string list"
  selectedDisks :: "identity \<times> string list"
  partitioningPath :: "string option"

text \<open>
  Calls that leave the component: the storage API, the wizard library, the location, the
  failure reporter, the console and the exit operation. They are recorded in call order.
\<close>

datatype call =
    ApplyStorage "string option" "bool option" "string option"
  | ResetPartitioning
  | GoToNextStep
  | GoToPrevStep
  | LocationGo "string list"
  | OnCritFail string
  | ConsoleError jsobj
  | ExitGui

datatype outcome = Succeeded | Failed jsobj

text \<open>
  The \<^verbatim>\<open>useState\<close> cells of \<^verbatim>\<open>AnacondaWizard\<close> (lines 52 to 58) and of \<^verbatim>\<open>Footer\<close>
  (lines 282 and 283), the cells behind \<^verbatim>\<open>useMemo\<close> and \<^verbatim>\<open>useEffect\<close> (lines 60 to 71),
  the active step of the wizard library, and the recorded calls.
\<close>

record ui =
  isFormValid :: bool
  stepNotification :: "jsobj option"
  isInProgress :: bool
  isInstallationProgress :: bool
  storageEncryption :: encryption
  storageScenarioId :: string
  reusePartitioning :: bool
  memoAvailableDevices :: "(identity \<times> (identity \<times> string list)) option"
  effectDeps :: "(identity \<times> identity) option"
  nextIdentity :: nat
  nextWaitsConfirmation :: bool
  quitWaitsConfirmation :: bool
  activeStep :: wizard_step
  calls :: "call list"

definition invoke :: "call \<Rightarrow> ui \<Rightarrow> ui" where
  "invoke c s = s\<lparr>calls := calls s @ [c]\<rparr>"

text \<open>
  The state right after mounting, before the first render has run its hooks. The initial
  encryption state, scenario id and active step come from outside the file.
\<close>

definition mounted :: "encryption \<Rightarrow> string \<Rightarrow> wizard_step \<Rightarrow> ui" where
  "mounted enc scenario first =
     \<lparr>isFormValid = False, stepNotification = None, isInProgress = False,
      isInstallationProgress = False, storageEncryption = enc, storageScenarioId = scenario,
      reusePartitioning = False, memoAvailableDevices = None, effectDeps = None,
      nextIdentity = 0, nextWaitsConfirmation = False, quitWaitsConfirmation = False,
      activeStep = first, calls = []\<rparr>"

section \<open>Hooks of the wizard controller\<close>

text \<open>
  Lines 60 to 62: \<^verbatim>\<open>useMemo(() => Object.keys(storageData.devices), [storageData.devices])\<close>.
  React keeps the cached array while the dependency is the same object (\<^verbatim>\<open>Object.is\<close>);
  otherwise the callback runs and allocates a new array.
\<close>

definition useMemo_availableDevices :: "storageData \<Rightarrow> ui \<Rightarrow> (identity \<times> string list) \<times> ui" where
  "useMemo_availableDevices sd s =
     (let recomputed =
            (let v = (RenderObj (nextIdentity s), snd (devices sd))
             in (v, s\<lparr>memoAvailableDevices := Some (fst (devices sd), v),
                      nextIdentity := nextIdentity s + 1\<rparr>))
      in case memoAvailableDevices s of
           None \<Rightarrow> recomputed
         | Some (dep, v) \<Rightarrow> if dep = fst (devices sd) then (v, s) else recomputed)"

text \<open>
  Lines 64 to 71: the effect with the dependencies
  \<^verbatim>\<open>[availableDevices, storageData.diskSelection.selectedDisks]\<close>. React runs it after the
  first render and after every render in which one dependency is another object than in
  the render before. One render together with its effect:
\<close>

definition render :: "storageData \<Rightarrow> ui \<Rightarrow> ui" where
  "render sd s =
     (let (availableDevices, s1) = useMemo_availableDevices sd s;
          deps = (fst availableDevices, fst (selectedDisks sd))
      in if effectDeps s1 = Some deps then s1
         else s1\<lparr>effectDeps := Some deps, reusePartitioning := False\<rparr>)"

text \<open>
  What happens to these cells over the life of the component: renders with the current
  props, and calls of \<^verbatim>\<open>setReusePartitioning\<close>, which is handed to the mount point
  mapping step.
\<close>

datatype event = Render storageData | SetReusePartitioning bool

fun occur :: "ui \<Rightarrow> event \<Rightarrow> ui" where
  "occur s (Render sd) = render sd s"
| "occur s (SetReusePartitioning b) = s\<lparr>reusePartitioning := b\<rparr>"

definition run :: "ui \<Rightarrow> event list \<Rightarrow> ui" where
  "run s es = foldl occur s es"

text \<open>
  Two invariants of the hook cells. The cached array was allocated by an
  earlier render, so its identity is below the allocation counter; and after a render
  with the props \<open>sd\<close> the cells hold the dependencies of that render.
\<close>

definition cells_fresh :: "ui \<Rightarrow> bool" where
  "cells_fresh s =
     (case memoAvailableDevices s of
        None \<Rightarrow> True
      | Some (dep, v) \<Rightarrow> (case fst v of RenderObj k \<Rightarrow> k < nextIdentity s | PropObj k \<Rightarrow> False))"

definition rendered_with :: "storageData \<Rightarrow> ui \<Rightarrow> bool" where
  "rendered_with sd s =
     (case memoAvailableDevices s of
        None \<Rightarrow> False
      | Some (dep, v) \<Rightarrow>
          dep = fst (devices sd) \<and> effectDeps s = Some (fst v, fst (selectedDisks sd)))"

section \<open>Collaborators outside the file\<close>

text \<open>
  Modelled from the spec: \<^verbatim>\<open>goToNextStep\<close> and \<^verbatim>\<open>goToPrevStep\<close> of the wizard library
  (\<^verbatim>\<open>useWizardContext\<close>) are not in the source. The spec has them advance to the next
  step and move to the previous step; \<open>nav\<close> is the library's ordered list of navigable
  steps, whose ids are the flattened sequence.
\<close>

definition goToNextStep :: "wizard_step list \<Rightarrow> ui \<Rightarrow> ui" where
  "goToNextStep nav s =
     (let i = findIndex (\<lambda>w. ident w = ident (activeStep s)) nav
      in invoke GoToNextStep
           (if 0 \<le> i \<and> i + 1 < int (length nav)
            then s\<lparr>activeStep := nav ! nat (i + 1)\<rparr> else s))"

definition goToPrevStep :: "wizard_step list \<Rightarrow> ui \<Rightarrow> ui" where
  "goToPrevStep nav s =
     (let i = findIndex (\<lambda>w. ident w = ident (activeStep s)) nav
      in invoke GoToPrevStep
           (if 1 \<le> i then s\<lparr>activeStep := nav ! nat (i - 1)\<rparr> else s))"

text \<open>
  Modelled from the spec: \<^verbatim>\<open>exitGui\<close> (\<^verbatim>\<open>helpers/exit.js\<close>) is not in the source. It is
  a parameterless external call; it receives no state setter.
\<close>

definition exitGui :: "ui \<Rightarrow> ui" where
  "exitGui s = invoke ExitGui s"

text \<open>
  \<^verbatim>\<open>cockpit.format(fmt, arg)\<close> for the one placeholder the file uses: every \<^verbatim>\<open>$0\<close> of
  the format string is replaced by the argument.
\<close>

fun cockpit_format :: "string \<Rightarrow> string \<Rightarrow> string" where
  "cockpit_format (c # d # cs) arg0 =
     (if c = CHR ''$'' \<and> d = CHR ''0'' then arg0 @ cockpit_format cs arg0
      else c # cockpit_format (d # cs) arg0)"
| "cockpit_format cs arg0 = cs"

section \<open>The wizard controller: \<^verbatim>\<open>goToStep\<close>\<close>

text \<open>
  Lines 212 to 230, up to the point where \<^verbatim>\<open>resetPartitioning()\<close> has been called and
  its promise is pending.
\<close>

definition goToStep :: "wizard_step \<Rightarrow> prev_step \<Rightarrow> ui \<Rightarrow> ui" where
  "goToStep currentStep prevStep s =
     (let s1 = (if prevId prevStep \<noteq> Some (ident currentStep)
                then s\<lparr>isFormValid := False\<rparr> else s)
      in if prevId prevStep = Some ''installation-review''
            \<and> ident currentStep \<noteq> ''installation-progress''
         then invoke ResetPartitioning (s1\<lparr>isInProgress := True\<rparr>)
         else invoke (LocationGo [ident currentStep]) s1)"

text \<open>
  Lines 222 to 226: the promise settles. \<^verbatim>\<open>.then(f, g)\<close> runs \<open>f\<close> when it is fulfilled
  and \<open>g\<close> when it is rejected; \<^verbatim>\<open>.always(h)\<close> runs \<open>h\<close> after either.
  \<^verbatim>\<open>cockpit.format\<close> writes nothing for an argument that is undefined.
\<close>

definition resetPartitioning_settled :: "wizard_step \<Rightarrow> prev_step \<Rightarrow> outcome \<Rightarrow> ui \<Rightarrow> ui" where
  "resetPartitioning_settled currentStep prevStep result s =
     (let s1 = (case result of
                  Succeeded \<Rightarrow> invoke (LocationGo [ident currentStep]) s
                | Failed ex \<Rightarrow>
                    invoke (OnCritFail
                      (cockpit_format ''Error was hit when going back from $0.''
                         (case prevName prevStep of None \<Rightarrow> [] | Some n \<Rightarrow> n))) s)
      in s1\<lparr>isInProgress := False\<rparr>)"

text \<open>
  Line 252, the only caller of \<^verbatim>\<open>goToStep\<close>: the \<^verbatim>\<open>onStepChange\<close> callback of the wizard
  passes on the new step and the previous step that the library hands it. Both are step
  objects of the library (the components of lines 31 to 34; the footer reads the same
  objects through \<^verbatim>\<open>activeStep.id\<close> and \<^verbatim>\<open>activeStep.name\<close>). Such an object carries
  \<^verbatim>\<open>id\<close> and \<^verbatim>\<open>name\<close> and has no property \<^verbatim>\<open>prevId\<close> or \<^verbatim>\<open>prevName\<close>.
\<close>

definition asPrevStep :: "wizard_step \<Rightarrow> prev_step" where
  "asPrevStep stepObject = \<lparr>prevId = None, prevName = None\<rparr>"

definition onStepChange :: "wizard_step \<Rightarrow> wizard_step \<Rightarrow> ui \<Rightarrow> ui" where
  "onStepChange currentStep prevStep s = goToStep currentStep (asPrevStep prevStep) s"

section \<open>The footer controller\<close>

text \<open>
  \<^verbatim>\<open>onNext\<close> (lines 286 to 334) up to the return of the handler; \<open>partitioning\<close> is the
  prop \<^verbatim>\<open>storageData.partitioning?.path\<close>. An argument that the call does not pass is
  \<open>None\<close>.
\<close>

definition onNext :: "wizard_step list \<Rightarrow> string option \<Rightarrow> ui \<Rightarrow> ui" where
  "onNext nav partitioning s =
     (let s1 = s\<lparr>isFormValid := True\<rparr>
      in if ident (activeStep s1) = ''disk-encryption''
         then invoke (ApplyStorage None (Some (encrypt (storageEncryption s1)))
                        (Some (password (storageEncryption s1))))
                (s1\<lparr>isInProgress := True\<rparr>)
         else if ident (activeStep s1) = ''installation-review''
         then s1\<lparr>nextWaitsConfirmation := True\<rparr>
         else if ident (activeStep s1) = ''mount-point-mapping''
         then invoke (ApplyStorage partitioning None None) (s1\<lparr>isInProgress := True\<rparr>)
         else goToNextStep nav s1)"

text \<open>
  The two callbacks handed to \<^verbatim>\<open>applyStorage\<close>; both branches of \<^verbatim>\<open>onNext\<close> pass the same
  pair. \<open>clicked\<close> is the \<^verbatim>\<open>activeStep\<close> the closure captured. In
  \<^verbatim>\<open>{ step: activeStep.id, ...ex }\<close> the properties of \<^verbatim>\<open>ex\<close> are written after \<^verbatim>\<open>step\<close>.
\<close>

definition onFail :: "wizard_step \<Rightarrow> jsobj \<Rightarrow> ui \<Rightarrow> ui" where
  "onFail clicked ex s =
     (invoke (ConsoleError ex) s)
       \<lparr>isInProgress := False,
        stepNotification := Some ([''step'' \<mapsto> ident clicked] ++ ex)\<rparr>"

definition onSuccess :: "wizard_step list \<Rightarrow> ui \<Rightarrow> ui" where
  "onSuccess nav s = (goToNextStep nav s)\<lparr>isInProgress := False, stepNotification := None\<rparr>"

text \<open>
  Modelled from the spec: \<^verbatim>\<open>applyStorage\<close> (\<^verbatim>\<open>apis/storage.js\<close>) is not in the source. It
  is asynchronous and ends by calling \<^verbatim>\<open>onSuccess()\<close>, or \<^verbatim>\<open>onFail(err)\<close> with its error.
\<close>

definition applyStorage_settled :: "wizard_step list \<Rightarrow> wizard_step \<Rightarrow> outcome \<Rightarrow> ui \<Rightarrow> ui" where
  "applyStorage_settled nav clicked result s =
     (case result of Succeeded \<Rightarrow> onSuccess nav s | Failed ex \<Rightarrow> onFail clicked ex s)"

text \<open>\<^verbatim>\<open>onBack\<close> (lines 336 to 340).\<close>

definition onBack :: "wizard_step list \<Rightarrow> ui \<Rightarrow> ui" where
  "onBack nav s = goToPrevStep nav (s\<lparr>isFormValid := True\<rparr>)"

text \<open>
  The controls of the footer and of the quit modal (lines 342 to 459). The footer belongs
  to the wizard, which is rendered while \<^verbatim>\<open>isInstallationProgress\<close> is false; it renders
  nothing while \<^verbatim>\<open>isInProgress\<close>; a disabled button takes no click; the modal is there
  while \<^verbatim>\<open>quitWaitsConfirmation\<close>.
\<close>

datatype control = BackBtn | NextBtn | QuitBtn | QuitConfirmBtn | QuitCancelBtn | QuitModalClose

definition isFirstScreen :: "bool \<Rightarrow> ui \<Rightarrow> bool" where
  "isFirstScreen isBootIso s =
     (ident (activeStep s) = ''installation-language''
      \<or> (ident (activeStep s) = ''installation-method'' \<and> \<not> isBootIso))"

definition clickable :: "bool \<Rightarrow> control \<Rightarrow> ui \<Rightarrow> bool" where
  "clickable isBootIso c s =
     (\<not> isInstallationProgress s \<and> \<not> isInProgress s \<and>
      (case c of
         BackBtn \<Rightarrow> \<not> isFirstScreen isBootIso s
       | NextBtn \<Rightarrow> \<not> (\<not> isFormValid s \<or> nextWaitsConfirmation s)
       | QuitBtn \<Rightarrow> True
       | QuitConfirmBtn \<Rightarrow> quitWaitsConfirmation s
       | QuitCancelBtn \<Rightarrow> quitWaitsConfirmation s
       | QuitModalClose \<Rightarrow> quitWaitsConfirmation s))"

text \<open>
  The \<^verbatim>\<open>onClick\<close> and \<^verbatim>\<open>onClose\<close> handlers. The Back button evaluates its second
  argument, a call of \<^verbatim>\<open>onCritFail\<close>, before \<^verbatim>\<open>onBack\<close> runs.
\<close>

definition handler :: "wizard_step list \<Rightarrow> string option \<Rightarrow> control \<Rightarrow> ui \<Rightarrow> ui" where
  "handler nav partitioning c s =
     (case c of
        BackBtn \<Rightarrow>
          onBack nav
            (invoke (OnCritFail
               (cockpit_format ''Error was hit when going back from $0.'' (name (activeStep s)))) s)
      | NextBtn \<Rightarrow> onNext nav partitioning s
      | QuitBtn \<Rightarrow> s\<lparr>quitWaitsConfirmation := True\<rparr>
      | QuitConfirmBtn \<Rightarrow> exitGui s
      | QuitCancelBtn \<Rightarrow> s\<lparr>quitWaitsConfirmation := False\<rparr>
      | QuitModalClose \<Rightarrow> s\<lparr>quitWaitsConfirmation := False\<rparr>)"

definition click :: "wizard_step list \<Rightarrow> bool \<Rightarrow> string option \<Rightarrow> control \<Rightarrow> ui \<Rightarrow> ui option" where
  "click nav isBootIso partitioning c s =
     (if clickable isBootIso c s then Some (handler nav partitioning c s) else None)"

section \<open>Properties of the step flattener\<close>

lemma pushChildSteps_append:
  "pushChildSteps acc cs = acc @ map step_id (filter spec_visibleChild cs)"
  unfolding pushChildSteps_def spec_visibleChild_def by (induction cs arbitrary: acc) auto

lemma flatten_fold_append:
  "foldl (\<lambda>stepIds st. case steps st of
                Some childSteps \<Rightarrow> pushChildSteps stepIds childSteps
              | None \<Rightarrow> stepIds @ [step_id st]) acc sts
   = acc @ concat (map spec_contributedIds sts)"
  by (induction sts arbitrary: acc)
     (auto simp: spec_contributedIds_def pushChildSteps_append split: option.splits)

lemma getFlattenedStepsIds_concat:
  "getFlattenedStepsIds sts = concat (map spec_contributedIds sts)"
  unfolding getFlattenedStepsIds_def by (simp add: flatten_fold_append)

lemma step_id_in_descriptor_ids: "step_id c \<in> set (descriptor_ids c)"
  by (cases c rule: descriptor_ids.cases) auto

lemma distinct_child_ids:
  "distinct (concat (map descriptor_ids cs)) \<Longrightarrow> distinct (map step_id cs)"
proof (induction cs)
  case Nil
  then show ?case by simp
next
  case (Cons c cs)
  have "step_id c \<notin> step_id ` set cs"
  proof
    assume "step_id c \<in> step_id ` set cs"
    then obtain d where d: "d \<in> set cs" "step_id d = step_id c" by auto
    have "step_id d \<in> set (concat (map descriptor_ids cs))"
      using d(1) step_id_in_descriptor_ids[of d] by auto
    with Cons.prems d(2) step_id_in_descriptor_ids[of c] show False by auto
  qed
  with Cons show ?case by simp
qed

lemma contributedIds_subset: "set (spec_contributedIds st) \<subseteq> set (descriptor_ids st)"
proof (cases st rule: descriptor_ids.cases)
  case (1 i l c h)
  then show ?thesis by (simp add: spec_contributedIds_def)
next
  case (2 i l c cs h)
  have "step_id ` set cs \<subseteq> set (concat (map descriptor_ids cs))"
    using step_id_in_descriptor_ids by auto
  with 2 show ?thesis by (auto simp: spec_contributedIds_def)
qed

lemma contributedIds_distinct:
  "distinct (descriptor_ids st) \<Longrightarrow> distinct (spec_contributedIds st)"
proof (cases st rule: descriptor_ids.cases)
  case (1 i l c h)
  then show ?thesis by (simp add: spec_contributedIds_def)
next
  case (2 i l c cs h)
  assume "distinct (descriptor_ids st)"
  with 2 have "distinct (map step_id cs)" by (simp add: distinct_child_ids)
  then have "distinct (map step_id (filter spec_visibleChild cs))"
    by (rule distinct_map_filter)
  with 2 show ?thesis by (simp add: spec_contributedIds_def)
qed

lemma flattened_subset: "set (concat (map spec_contributedIds sts)) \<subseteq> set (tree_ids sts)"
  unfolding tree_ids_def using contributedIds_subset by fastforce

lemma flattened_distinct:
  "distinct (tree_ids sts) \<Longrightarrow> distinct (concat (map spec_contributedIds sts))"
proof (induction sts)
  case Nil
  then show ?case by simp
next
  case (Cons st sts)
  from Cons.prems have d: "distinct (descriptor_ids st)" "distinct (tree_ids sts)"
    "set (descriptor_ids st) \<inter> set (tree_ids sts) = {}"
    by (simp_all add: tree_ids_def)
  have "set (spec_contributedIds st) \<inter> set (concat (map spec_contributedIds sts)) = {}"
    using d(3) contributedIds_subset[of st] flattened_subset[of sts] by blast
  with Cons.IH[OF d(2)] contributedIds_distinct[OF d(1)] show ?case by simp
qed

lemma hidden_child_not_contributed:
  assumes "distinct (descriptor_ids g)" "steps g = Some cs" "c \<in> set cs"
    "isHidden c = Some True"
  shows "step_id c \<notin> set (spec_contributedIds g)"
proof
  assume "step_id c \<in> set (spec_contributedIds g)"
  then obtain d where d: "d \<in> set cs" "spec_visibleChild d" "step_id d = step_id c"
    using assms(2) by (auto simp: spec_contributedIds_def)
  have "distinct (map step_id cs)"
    using assms(1,2) by (cases g rule: descriptor_ids.cases) (simp_all add: distinct_child_ids)
  then have "inj_on step_id (set cs)" by (simp add: distinct_map)
  with d assms(3) have "d = c" by (auto dest: inj_onD)
  with d(2) assms(4) show False by (simp add: spec_visibleChild_def)
qed

lemma child_id_in_descriptor_ids:
  "steps g = Some cs \<Longrightarrow> c \<in> set cs \<Longrightarrow> step_id c \<in> set (descriptor_ids g)"
  using step_id_in_descriptor_ids[of c] by (cases g rule: descriptor_ids.cases) auto

lemma hidden_child_excluded:
  "distinct (tree_ids sts) \<Longrightarrow> g \<in> set sts \<Longrightarrow> steps g = Some cs \<Longrightarrow> c \<in> set cs
   \<Longrightarrow> isHidden c = Some True \<Longrightarrow> step_id c \<notin> set (concat (map spec_contributedIds sts))"
proof (induction sts)
  case Nil
  then show ?case by simp
next
  case (Cons st sts)
  from Cons.prems(1) have d: "distinct (descriptor_ids st)" "distinct (tree_ids sts)"
    "set (descriptor_ids st) \<inter> set (tree_ids sts) = {}"
    by (simp_all add: tree_ids_def)
  show ?case
  proof (cases "g = st")
    case True
    have a: "step_id c \<notin> set (spec_contributedIds st)"
      using hidden_child_not_contributed[OF _ Cons.prems(3,4,5)] d(1) True by simp
    have "step_id c \<in> set (descriptor_ids st)"
      using child_id_in_descriptor_ids[OF Cons.prems(3,4)] True by simp
    with d(3) flattened_subset[of sts]
    have "step_id c \<notin> set (concat (map spec_contributedIds sts))" by blast
    with a show ?thesis by simp
  next
    case False
    with Cons.prems(2) have g: "g \<in> set sts" by simp
    have b: "step_id c \<notin> set (concat (map spec_contributedIds sts))"
      using Cons.IH[OF d(2) g Cons.prems(3,4,5)] .
    have "step_id c \<in> set (tree_ids sts)"
      using child_id_in_descriptor_ids[OF Cons.prems(3,4)] g by (auto simp: tree_ids_def)
    with d(3) contributedIds_subset[of st]
    have "step_id c \<notin> set (spec_contributedIds st)" by blast
    with b show ?thesis by simp
  qed
qed

text \<open>The flattened sequences of the wizard's own step tree.\<close>

lemma flattened_stepsOrder:
  "getFlattenedStepsIds (stepsOrder isBootIso sc) =
     (if isBootIso then [''installation-language''] else []) @
     [''installation-method'',
      if sc = ''mount-point-mapping'' then ''mount-point-mapping'' else ''disk-encryption'',
      ''installation-review'']"
  by (simp add: getFlattenedStepsIds_def pushChildSteps_def stepsOrder_def)

lemma tree_ids_stepsOrder:
  "tree_ids (stepsOrder isBootIso sc) =
     (if isBootIso then [''installation-language''] else []) @
     [''installation-method'', ''disk-configuration'', ''mount-point-mapping'',
      ''disk-encryption'', ''installation-review'']"
  by (simp add: tree_ids_def stepsOrder_def)

text \<open>
  Claim C4, as the code has it. For every list of step descriptors,
  \<^verbatim>\<open>getFlattenedStepsIds\<close> returns, in document order, for each top-level node with child
  steps the ids of its direct children whose \<^verbatim>\<open>isHidden\<close> is not exactly true (and not
  the node's own id), and for each top-level node without child steps its own id, whatever
  its \<^verbatim>\<open>isHidden\<close> flag says. When the ids of all descriptors of the tree are pairwise
  distinct, the flattened sequence has no duplicate and holds no id of a hidden child of a
  top-level group.
\<close>

theorem getFlattenedStepsIds_spec:
  "getFlattenedStepsIds sts = concat (map spec_contributedIds sts) \<and>
   (distinct (tree_ids sts) \<longrightarrow>
      distinct (getFlattenedStepsIds sts) \<and>
      (\<forall>g \<in> set sts. \<forall>cs. steps g = Some cs \<longrightarrow>
         (\<forall>c \<in> set cs. isHidden c = Some True \<longrightarrow>
            step_id c \<notin> set (getFlattenedStepsIds sts))))"
  using flattened_distinct[of sts] hidden_child_excluded[of sts]
  by (simp add: getFlattenedStepsIds_concat)

text \<open>
  The theorem at the wizard's own tree in boot mode with the manual scenario: the tree has
  pairwise distinct ids, so its flattened sequence has no duplicate and leaves out the
  hidden disk encryption step.
\<close>

theorem getFlattenedStepsIds_spec_witness:
  "distinct (tree_ids (stepsOrder True ''mount-point-mapping'')) \<and>
   distinct (getFlattenedStepsIds (stepsOrder True ''mount-point-mapping'')) \<and>
   ''disk-encryption'' \<notin> set (getFlattenedStepsIds (stepsOrder True ''mount-point-mapping''))"
proof -
  let ?T = "stepsOrder True ''mount-point-mapping''"
  let ?g = "Step ''disk-configuration'' ''Disk configuration'' None
        (Some [Step ''mount-point-mapping'' ''Manual disk configuration'' (Some ''MountPointMapping'')
                 None (Some False),
               Step ''disk-encryption'' ''Disk encryption'' (Some ''DiskEncryption'')
                 None (Some True)])
        None"
  have d: "distinct (tree_ids ?T)" by (simp add: tree_ids_stepsOrder)
  have g: "?g \<in> set ?T" by (simp add: stepsOrder_def)
  from getFlattenedStepsIds_spec[of ?T] d
  have a: "distinct (getFlattenedStepsIds ?T)"
    and b: "\<forall>g \<in> set ?T. \<forall>cs. steps g = Some cs \<longrightarrow>
              (\<forall>c \<in> set cs. isHidden c = Some True \<longrightarrow>
                 step_id c \<notin> set (getFlattenedStepsIds ?T))"
    by blast+
  from bspec[OF b g] have "''disk-encryption'' \<notin> set (getFlattenedStepsIds ?T)" by simp
  with d a show ?thesis by simp
qed

text \<open>
  Claim C4 as stated fails on a hidden leaf at the top level: the descriptor below has no
  child steps and is marked hidden, its tree has distinct ids, and its id is in the
  flattened sequence.
\<close>

theorem getFlattenedStepsIds_hidden_leaf_counterexample:
  "steps (Step ''installation-method'' ''Installation method'' (Some ''InstallationMethod'')
            None (Some True)) = None \<and>
   isHidden (Step ''installation-method'' ''Installation method'' (Some ''InstallationMethod'')
            None (Some True)) = Some True \<and>
   distinct (tree_ids [Step ''installation-method'' ''Installation method''
            (Some ''InstallationMethod'') None (Some True)]) \<and>
   ''installation-method'' \<in> set (getFlattenedStepsIds [Step ''installation-method''
            ''Installation method'' (Some ''InstallationMethod'') None (Some True)])"
  by (simp add: getFlattenedStepsIds_def tree_ids_def)

text \<open>
  Claim C5. For every value of the storage scenario id, the disk configuration group is
  the only group of the step tree and has the two children mount-point-mapping and
  disk-encryption, in this order; mount-point-mapping is hidden exactly when the scenario
  id is not \<^verbatim>\<open>mount-point-mapping\<close>, disk-encryption is hidden exactly when it is; so
  exactly one of the two is hidden, and exactly one of the two ids is in the flattened
  sequence.
\<close>

theorem stepsOrder_disk_configuration:
  "\<exists>mpm de.
     List.map_filter steps (stepsOrder isBootIso sc) = [[mpm, de]] \<and>
     step_id mpm = ''mount-point-mapping'' \<and> step_id de = ''disk-encryption'' \<and>
     isHidden mpm = Some (sc \<noteq> ''mount-point-mapping'') \<and>
     isHidden de = Some (sc = ''mount-point-mapping'') \<and>
     (isHidden mpm = Some True) \<noteq> (isHidden de = Some True) \<and>
     (''mount-point-mapping'' \<in> set (getFlattenedStepsIds (stepsOrder isBootIso sc))) =
       (sc = ''mount-point-mapping'') \<and>
     (''disk-encryption'' \<in> set (getFlattenedStepsIds (stepsOrder isBootIso sc))) =
       (sc \<noteq> ''mount-point-mapping'')"
  by (simp add: flattened_stepsOrder) (simp add: stepsOrder_def List.map_filter_def)

section \<open>Properties of the navigation guard\<close>

lemma findIndexFrom_none: "(\<And>x. x \<in> set xs \<Longrightarrow> \<not> p x) \<Longrightarrow> findIndexFrom i p xs = - 1"
  by (induction xs arbitrary: i) auto

lemma findIndexFrom_first:
  "k < length xs \<Longrightarrow> p (xs ! k) \<Longrightarrow> (\<And>j. j < k \<Longrightarrow> \<not> p (xs ! j))
   \<Longrightarrow> findIndexFrom i p xs = i + int k"
proof (induction xs arbitrary: i k)
  case Nil
  then show ?case by simp
next
  case (Cons x xs)
  show ?case
  proof (cases k)
    case 0
    with Cons.prems show ?thesis by simp
  next
    case (Suc k')
    have notx: "\<not> p x" using Cons.prems(3)[of 0] Suc by simp
    have "findIndexFrom (i + 1) p xs = (i + 1) + int k'"
    proof (rule Cons.IH)
      show "k' < length xs" using Cons.prems(1) Suc by simp
      show "p (xs ! k')" using Cons.prems(2) Suc by simp
      fix j assume "j < k'"
      then show "\<not> p (xs ! j)" using Cons.prems(3)[of "Suc j"] Suc by simp
    qed
    with notx Suc show ?thesis by simp
  qed
qed

lemma findIndexFrom_found_ge: "x \<in> set xs \<Longrightarrow> p x \<Longrightarrow> i \<le> findIndexFrom i p xs"
proof (induction xs arbitrary: i)
  case Nil
  then show ?case by simp
next
  case (Cons y ys)
  show ?case
  proof (cases "p y")
    case True
    then show ?thesis by simp
  next
    case False
    with Cons.prems have "x \<in> set ys" by auto
    from Cons.IH[OF this Cons.prems(2), of "i + 1"] False show ?thesis by simp
  qed
qed

lemma findIndex_absent: "a \<notin> set xs \<Longrightarrow> findIndex (\<lambda>s. s = a) xs = - 1"
  unfolding findIndex_def by (rule findIndexFrom_none) auto

lemma findIndex_present: "a \<in> set xs \<Longrightarrow> 0 \<le> findIndex (\<lambda>s. s = a) xs"
  unfolding findIndex_def by (rule findIndexFrom_found_ge[where x = a]) auto

lemma findIndex_first:
  "k < length xs \<Longrightarrow> xs ! k = a \<Longrightarrow> \<forall>j<k. xs ! j \<noteq> a \<Longrightarrow> findIndex (\<lambda>s. s = a) xs = int k"
  unfolding findIndex_def using findIndexFrom_first[of k xs "\<lambda>s. s = a" 0] by simp

lemma findIndex_distinct:
  assumes "distinct xs" "k < length xs"
  shows "findIndex (\<lambda>s. s = xs ! k) xs = int k"
proof (rule findIndex_first)
  show "k < length xs" by fact
  show "xs ! k = xs ! k" by simp
  show "\<forall>j<k. xs ! j \<noteq> xs ! k"
    using assms by (auto simp: nth_eq_iff_index_eq)
qed

text \<open>
  Claim C3. For two ids that occur in the flattened sequence, the target first at index
  \<open>i\<close> and the current one first at index \<open>j\<close>, \<^verbatim>\<open>canJumpToStep\<close> is true if and only if
  \<open>i \<le> j\<close>; so it is false for every target at a strictly later index.
\<close>

theorem canJumpToStep_iff_index_le:
  assumes "i < length flat" "flat ! i = targetId" "\<forall>k<i. flat ! k \<noteq> targetId"
      and "j < length flat" "flat ! j = currentId" "\<forall>k<j. flat ! k \<noteq> currentId"
  shows "canJumpToStep flat targetId currentId \<longleftrightarrow> i \<le> j"
  using findIndex_first[OF assms(1-3)] findIndex_first[OF assms(4-6)]
  by (simp add: canJumpToStep_def)

text \<open>
  The theorem in boot mode with the manual scenario: from the mount point mapping step
  (index 2) one may not jump to the review step (index 3).
\<close>

theorem canJumpToStep_iff_index_le_witness:
  "\<not> canJumpToStep (getFlattenedStepsIds (stepsOrder True ''mount-point-mapping''))
       ''installation-review'' ''mount-point-mapping''"
  using canJumpToStep_iff_index_le[of 3 "getFlattenedStepsIds (stepsOrder True ''mount-point-mapping'')"
          "''installation-review''" 2 "''mount-point-mapping''"]
  by (simp add: flattened_stepsOrder less_Suc_eq numeral_3_eq_3 numeral_2_eq_2)

text \<open>
  Claim C6. For every non-empty flattened sequence with pairwise distinct ids,
  \<^verbatim>\<open>isFinishedStep\<close> is true of an id if and only if the id is the last entry; it is
  false of every other id, the ids absent from the sequence included.
\<close>

theorem isFinishedStep_iff_last:
  assumes "flat \<noteq> []" "distinct flat"
  shows "isFinishedStep flat stepId \<longleftrightarrow> stepId = last flat"
proof (cases "stepId \<in> set flat")
  case False
  have "last flat \<in> set flat" using assms(1) by simp
  with False have "stepId \<noteq> last flat" by auto
  moreover have "0 < length flat" using assms(1) by simp
  ultimately show ?thesis
    using findIndex_absent[OF False] by (simp add: isFinishedStep_def)
next
  case True
  then obtain k where k: "k < length flat" "flat ! k = stepId"
    by (auto simp: in_set_conv_nth)
  have idx: "findIndex (\<lambda>s. s = stepId) flat = int k"
    using findIndex_distinct[OF assms(2) k(1)] k(2) by simp
  have lst: "last flat = flat ! (length flat - 1)"
    using assms(1) by (simp add: last_conv_nth)
  have "stepId = last flat \<longleftrightarrow> k = length flat - 1"
    using k assms lst by (auto simp: nth_eq_iff_index_eq)
  moreover have "int k = int (length flat) - 1 \<longleftrightarrow> k = length flat - 1"
    using k(1) by auto
  ultimately show ?thesis using idx by (simp add: isFinishedStep_def)
qed

text \<open>
  The theorem outside boot mode with an automatic scenario: the review step is the
  finished step, the disk encryption step and an id that is not in the sequence are not.
\<close>

theorem isFinishedStep_iff_last_witness:
  "isFinishedStep (getFlattenedStepsIds (stepsOrder False ''erase-all'')) ''installation-review'' \<and>
   \<not> isFinishedStep (getFlattenedStepsIds (stepsOrder False ''erase-all'')) ''disk-encryption'' \<and>
   \<not> isFinishedStep (getFlattenedStepsIds (stepsOrder False ''erase-all'')) ''installation-language''"
  using isFinishedStep_iff_last[of "getFlattenedStepsIds (stepsOrder False ''erase-all'')" "''installation-review''"]
    isFinishedStep_iff_last[of "getFlattenedStepsIds (stepsOrder False ''erase-all'')" "''disk-encryption''"]
    isFinishedStep_iff_last[of "getFlattenedStepsIds (stepsOrder False ''erase-all'')" "''installation-language''"]
  by (simp add: flattened_stepsOrder)

text \<open>
  Claim C7, as the code has it. When the current id is absent from the flattened sequence,
  its index is \<open>-1\<close>, and \<^verbatim>\<open>canJumpToStep\<close> is true exactly for the target ids that are
  absent as well; it is false for every target id that is in the sequence.
\<close>

theorem canJumpToStep_current_absent:
  assumes "currentId \<notin> set flat"
  shows "canJumpToStep flat targetId currentId \<longleftrightarrow> targetId \<notin> set flat"
proof (cases "targetId \<in> set flat")
  case True
  then show ?thesis
    using findIndex_present[OF True] findIndex_absent[OF assms] by (simp add: canJumpToStep_def)
next
  case False
  then show ?thesis
    using findIndex_absent[OF False] findIndex_absent[OF assms] by (simp add: canJumpToStep_def)
qed

text \<open>
  The theorem outside boot mode, with the language step (which is not in the sequence) as
  the current step: a jump to the equally absent mount point mapping step is allowed.
\<close>

theorem canJumpToStep_current_absent_witness:
  "canJumpToStep (getFlattenedStepsIds (stepsOrder False ''erase-all''))
     ''mount-point-mapping'' ''installation-language''"
  using canJumpToStep_current_absent[of "''installation-language''"
          "getFlattenedStepsIds (stepsOrder False ''erase-all'')" "''mount-point-mapping''"]
  by (simp add: flattened_stepsOrder)

text \<open>
  Claim C7 as stated fails: outside boot mode the language step is absent from the
  flattened sequence, and with it as the current id \<^verbatim>\<open>canJumpToStep\<close> is false for the
  installation method step, which is in the sequence.
\<close>

theorem canJumpToStep_current_absent_counterexample:
  "''installation-language'' \<notin> set (getFlattenedStepsIds (stepsOrder False ''erase-all'')) \<and>
   \<not> canJumpToStep (getFlattenedStepsIds (stepsOrder False ''erase-all''))
       ''installation-method'' ''installation-language''"
  by (simp add: flattened_stepsOrder canJumpToStep_def findIndex_def)

section \<open>Properties of the hooks\<close>

lemma cells_fresh_mounted: "cells_fresh (mounted enc sc first)"
  by (simp add: cells_fresh_def mounted_def)

lemma cells_fresh_render: "cells_fresh s \<Longrightarrow> cells_fresh (render sd s)"
  by (auto simp: cells_fresh_def render_def useMemo_availableDevices_def Let_def
           split: option.splits identity.splits prod.splits if_splits)

lemma cells_fresh_set [simp]:
  "cells_fresh (s\<lparr>reusePartitioning := b\<rparr>) = cells_fresh s"
  by (simp add: cells_fresh_def cong: option.case_cong prod.case_cong identity.case_cong)

lemma rendered_with_set [simp]:
  "rendered_with sd (s\<lparr>reusePartitioning := b\<rparr>) = rendered_with sd s"
  by (simp add: rendered_with_def cong: option.case_cong prod.case_cong)

lemma cells_fresh_occur: "cells_fresh s \<Longrightarrow> cells_fresh (occur s e)"
  by (cases e) (simp_all add: cells_fresh_render)

lemma cells_fresh_run: "cells_fresh s \<Longrightarrow> cells_fresh (run s es)"
  unfolding run_def by (induction es arbitrary: s) (simp_all add: cells_fresh_occur)

lemma rendered_with_render: "rendered_with sd (render sd s)"
  by (auto simp: rendered_with_def render_def useMemo_availableDevices_def Let_def
           split: option.splits prod.splits if_splits)

lemma rendered_with_sets:
  "rendered_with sd s \<Longrightarrow> rendered_with sd (foldl occur s (map SetReusePartitioning bs))"
  by (induction bs arbitrary: s) simp_all

lemma cells_fresh_sets:
  "cells_fresh s \<Longrightarrow> cells_fresh (foldl occur s (map SetReusePartitioning bs))"
  by (induction bs arbitrary: s) simp_all

text \<open>A render whose props bring another object for one dependency runs the effect.\<close>

lemma render_other_object:
  assumes "cells_fresh s" "rendered_with sd s"
    and "fst (devices sd') \<noteq> fst (devices sd) \<or> fst (selectedDisks sd') \<noteq> fst (selectedDisks sd)"
  shows "reusePartitioning (render sd' s) = False"
  using assms
  by (auto simp: cells_fresh_def rendered_with_def render_def useMemo_availableDevices_def Let_def
           split: option.splits prod.splits if_splits identity.splits)

text \<open>
  Claim C8, as the code has it. Take any history of the mounted component that ends
  with a render with the props \<open>sd\<close>, followed by any calls of \<^verbatim>\<open>setReusePartitioning\<close>, and let the next render
  come with the props \<open>sd'\<close>. Props are not changed in place: where \<open>sd'\<close> holds the same
  object as \<open>sd\<close>, the content is the same. If the set of device keys or the list of
  selected disks differs between \<open>sd\<close> and \<open>sd'\<close>, then after the render with \<open>sd'\<close>
  \<^verbatim>\<open>reusePartitioning\<close> is false, whatever it was before.
\<close>

theorem reusePartitioning_reset:
  assumes "fst (devices sd') = fst (devices sd) \<longrightarrow> snd (devices sd') = snd (devices sd)"
      and "fst (selectedDisks sd') = fst (selectedDisks sd)
             \<longrightarrow> snd (selectedDisks sd') = snd (selectedDisks sd)"
      and "set (snd (devices sd')) \<noteq> set (snd (devices sd))
             \<or> snd (selectedDisks sd') \<noteq> snd (selectedDisks sd)"
  shows "reusePartitioning
           (render sd' (run (mounted enc sc first)
                          (es @ [Render sd] @ map SetReusePartitioning bs))) = False"
proof -
  let ?s0 = "run (mounted enc sc first) es"
  let ?s1 = "render sd ?s0"
  let ?s2 = "foldl occur ?s1 (map SetReusePartitioning bs)"
  have eq: "run (mounted enc sc first) (es @ [Render sd] @ map SetReusePartitioning bs) = ?s2"
    by (simp add: run_def)
  have "cells_fresh ?s0" by (rule cells_fresh_run[OF cells_fresh_mounted])
  then have f: "cells_fresh ?s2" by (intro cells_fresh_sets cells_fresh_render)
  have r: "rendered_with sd ?s2" by (intro rendered_with_sets rendered_with_render)
  have "fst (devices sd') \<noteq> fst (devices sd) \<or> fst (selectedDisks sd') \<noteq> fst (selectedDisks sd)"
    using assms by auto
  from render_other_object[OF f r this] eq show ?thesis by simp
qed

text \<open>
  The theorem after a rescan that found a second disk: the mount point mapping step had
  set \<^verbatim>\<open>reusePartitioning\<close> to true, and the render with the new device object resets it.
\<close>

theorem reusePartitioning_reset_witness:
  "reusePartitioning
     (run (mounted \<lparr>encrypt = False, password = []\<rparr> ''mount-point-mapping''
             \<lparr>ident = ''installation-method'', name = ''Installation method''\<rparr>)
          ([] @ [Render \<lparr>devices = (PropObj 1, [''sda'']), selectedDisks = (PropObj 2, [''sda'']),
                          partitioningPath = None\<rparr>] @ map SetReusePartitioning [True])) \<and>
   reusePartitioning
     (render \<lparr>devices = (PropObj 3, [''sda'', ''sdb'']), selectedDisks = (PropObj 2, [''sda'']),
              partitioningPath = None\<rparr>
        (run (mounted \<lparr>encrypt = False, password = []\<rparr> ''mount-point-mapping''
                \<lparr>ident = ''installation-method'', name = ''Installation method''\<rparr>)
             ([] @ [Render \<lparr>devices = (PropObj 1, [''sda'']), selectedDisks = (PropObj 2, [''sda'']),
                             partitioningPath = None\<rparr>] @ map SetReusePartitioning [True])))
     = False"
proof -
  have prior: "reusePartitioning
     (run (mounted \<lparr>encrypt = False, password = []\<rparr> ''mount-point-mapping''
             \<lparr>ident = ''installation-method'', name = ''Installation method''\<rparr>)
          ([] @ [Render \<lparr>devices = (PropObj 1, [''sda'']), selectedDisks = (PropObj 2, [''sda'']),
                          partitioningPath = None\<rparr>] @ map SetReusePartitioning [True]))"
    by (simp add: run_def)
  have "reusePartitioning
     (render \<lparr>devices = (PropObj 3, [''sda'', ''sdb'']), selectedDisks = (PropObj 2, [''sda'']),
              partitioningPath = None\<rparr>
        (run (mounted \<lparr>encrypt = False, password = []\<rparr> ''mount-point-mapping''
                \<lparr>ident = ''installation-method'', name = ''Installation method''\<rparr>)
             ([] @ [Render \<lparr>devices = (PropObj 1, [''sda'']), selectedDisks = (PropObj 2, [''sda'']),
                             partitioningPath = None\<rparr>] @ map SetReusePartitioning [True])))
     = False"
    by (rule reusePartitioning_reset) simp_all
  with prior show ?thesis by simp
qed

text \<open>
  Claim C8 as stated fails when the device set changes inside the same object. The first
  render sees the device object with the key \<^verbatim>\<open>sda\<close>, the mount point mapping step sets
  \<^verbatim>\<open>reusePartitioning\<close> to true, and the next render sees the same object, now with the
  keys \<^verbatim>\<open>sda\<close> and \<^verbatim>\<open>sdb\<close>: the set of available devices has changed, no dependency is
  another object, the effect does not run, and \<^verbatim>\<open>reusePartitioning\<close> is still true.
\<close>

theorem reusePartitioning_same_object_counterexample:
  "set (snd (devices \<lparr>devices = (PropObj 1, [''sda'', ''sdb'']),
                       selectedDisks = (PropObj 2, [''sda'']), partitioningPath = None\<rparr>))
     \<noteq> set (snd (devices \<lparr>devices = (PropObj 1, [''sda'']),
                       selectedDisks = (PropObj 2, [''sda'']), partitioningPath = None\<rparr>)) \<and>
   reusePartitioning
     (render \<lparr>devices = (PropObj 1, [''sda'', ''sdb'']), selectedDisks = (PropObj 2, [''sda'']),
              partitioningPath = None\<rparr>
        (run (mounted \<lparr>encrypt = False, password = []\<rparr> ''mount-point-mapping''
                \<lparr>ident = ''installation-method'', name = ''Installation method''\<rparr>)
             [Render \<lparr>devices = (PropObj 1, [''sda'']), selectedDisks = (PropObj 2, [''sda'']),
                      partitioningPath = None\<rparr>,
              SetReusePartitioning True]))"
  by (simp add: run_def render_def useMemo_availableDevices_def mounted_def Let_def)

section \<open>Properties of the wizard controller\<close>

lemma cockpit_format_going_back:
  "cockpit_format ''Error was hit when going back from $0.'' n
   = ''Error was hit when going back from '' @ n @ ''.''"
  by simp

text \<open>
  The branch of lines 219 to 226, for an argument that does carry \<^verbatim>\<open>prevId\<close> with the
  value \<^verbatim>\<open>installation-review\<close>: \<^verbatim>\<open>isInProgress\<close> is set and \<^verbatim>\<open>resetPartitioning\<close> is
  called; fulfilment navigates, rejection calls \<^verbatim>\<open>onCritFail\<close> and does not navigate, and
  either clears \<^verbatim>\<open>isInProgress\<close>.
\<close>

lemma goToStep_reset_branch:
  assumes "prevId prevStep = Some ''installation-review''"
      and "ident currentStep \<noteq> ''installation-progress''"
  shows "let s1 = goToStep currentStep prevStep s;
             done = resetPartitioning_settled currentStep prevStep Succeeded s1;
             failed = resetPartitioning_settled currentStep prevStep (Failed ex) s1
         in isInProgress s1 \<and> calls s1 = calls s @ [ResetPartitioning] \<and>
            \<not> isInProgress done \<and> calls done = calls s1 @ [LocationGo [ident currentStep]] \<and>
            \<not> isInProgress failed \<and>
            calls failed = calls s1 @
              [OnCritFail (''Error was hit when going back from ''
                 @ (case prevName prevStep of None \<Rightarrow> [] | Some n \<Rightarrow> n) @ ''.'')]"
  using assms
  by (simp add: goToStep_def resetPartitioning_settled_def invoke_def Let_def
        cockpit_format_going_back del: cockpit_format.simps)

text \<open>
  A step change that the wizard delivers never takes that branch: whatever the two steps
  are, it resets \<^verbatim>\<open>isFormValid\<close> and navigates at once.
\<close>

lemma onStepChange_direct:
  "onStepChange currentStep prevStep s
   = invoke (LocationGo [ident currentStep]) (s\<lparr>isFormValid := False\<rparr>)"
  by (simp add: onStepChange_def asPrevStep_def goToStep_def)

text \<open>
  Claim C2 asks that a step change away from the review step, to a step other than the
  progress view, sets \<^verbatim>\<open>isInProgress\<close> and calls \<^verbatim>\<open>resetPartitioning\<close>, as the comment at
  line 218 announces. The code does not do so. For the Back click on the review step,
  outside boot mode with an automatic scenario, the step change from the review step to
  the disk encryption step makes one outside call, the navigation to the new step;
  \<^verbatim>\<open>resetPartitioning\<close> is not called and \<^verbatim>\<open>isInProgress\<close> stays false.
\<close>

theorem goToStep_back_from_review_no_reset:
  "calls (onStepChange \<lparr>ident = ''disk-encryption'', name = ''Disk encryption''\<rparr>
            \<lparr>ident = ''installation-review'', name = ''Review and install''\<rparr>
            (mounted \<lparr>encrypt = False, password = []\<rparr> ''erase-all''
               \<lparr>ident = ''installation-review'', name = ''Review and install''\<rparr>))
     = [LocationGo [''disk-encryption'']] \<and>
   ResetPartitioning \<notin> set (calls (onStepChange
            \<lparr>ident = ''disk-encryption'', name = ''Disk encryption''\<rparr>
            \<lparr>ident = ''installation-review'', name = ''Review and install''\<rparr>
            (mounted \<lparr>encrypt = False, password = []\<rparr> ''erase-all''
               \<lparr>ident = ''installation-review'', name = ''Review and install''\<rparr>))) \<and>
   \<not> isInProgress (onStepChange \<lparr>ident = ''disk-encryption'', name = ''Disk encryption''\<rparr>
            \<lparr>ident = ''installation-review'', name = ''Review and install''\<rparr>
            (mounted \<lparr>encrypt = False, password = []\<rparr> ''erase-all''
               \<lparr>ident = ''installation-review'', name = ''Review and install''\<rparr>))"
  by (simp add: onStepChange_def asPrevStep_def goToStep_def invoke_def mounted_def)

section \<open>Properties of the footer controller\<close>

lemma nav_position:
  assumes "distinct (map ident nav)" "w \<in> set nav"
  shows "\<exists>i<length nav. nav ! i = w \<and> findIndex (\<lambda>x. ident x = ident w) nav = int i"
proof -
  from assms(2) obtain i where i: "i < length nav" "nav ! i = w"
    by (auto simp: in_set_conv_nth)
  have "findIndexFrom 0 (\<lambda>x. ident x = ident w) nav = 0 + int i"
  proof (rule findIndexFrom_first)
    show "i < length nav" by fact
    show "ident (nav ! i) = ident w" using i(2) by simp
    fix j assume j: "j < i"
    have "map ident nav ! j \<noteq> map ident nav ! i"
      using assms(1) i(1) j by (simp add: nth_eq_iff_index_eq del: nth_map)
    then show "ident (nav ! j) \<noteq> ident w" using i j by simp
  qed
  with i show ?thesis by (auto simp: findIndex_def)
qed

lemma nav_distinct:
  "map ident nav = getFlattenedStepsIds (stepsOrder isBootIso sc) \<Longrightarrow> distinct (map ident nav)"
  by (simp add: flattened_stepsOrder)

text \<open>The review step closes the flattened sequence, so no other step is the last one.\<close>

lemma nav_not_last:
  assumes nav: "map ident nav = getFlattenedStepsIds (stepsOrder isBootIso sc)"
      and i: "i < length nav"
      and a: "ident (nav ! i) \<noteq> ''installation-review''"
  shows "Suc i < length nav"
proof (rule ccontr)
  assume "\<not> Suc i < length nav"
  with i have il: "i = length (map ident nav) - 1" by simp
  have "map ident nav \<noteq> []" using i by auto
  then have "last (map ident nav) = map ident nav ! i"
    unfolding il by (rule last_conv_nth)
  then have "ident (nav ! i) = last (map ident nav)"
    using i by simp
  also have "\<dots> = ''installation-review''"
    unfolding nav by (simp add: flattened_stepsOrder)
  finally show False using a by simp
qed

lemma goToNextStep_advances:
  assumes "i < length nav" "nav ! i = activeStep s" "Suc i < length nav"
    "findIndex (\<lambda>x. ident x = ident (activeStep s)) nav = int i"
  shows "activeStep (goToNextStep nav s) = nav ! Suc i"
    and "calls (goToNextStep nav s) = calls s @ [GoToNextStep]"
    and "isInProgress (goToNextStep nav s) = isInProgress s"
  using assms by (simp_all add: goToNextStep_def invoke_def Let_def nat_add_distrib)

text \<open>
  Claim C1. Let the wizard's navigable steps \<open>nav\<close> carry the flattened id sequence of the
  step tree, and let the active step be one of them, with the id \<^verbatim>\<open>disk-encryption\<close> or
  \<^verbatim>\<open>mount-point-mapping\<close>. Then \<^verbatim>\<open>onNext\<close> sets \<^verbatim>\<open>isInProgress\<close> and makes one call of
  \<^verbatim>\<open>applyStorage\<close>, with the encryption flag and password for disk-encryption and with the
  partitioning path for mount-point-mapping, and leaves the active step alone. If
  \<^verbatim>\<open>applyStorage\<close> fails with the error \<open>ex\<close>, then afterwards \<^verbatim>\<open>isInProgress\<close> is false,
  \<^verbatim>\<open>stepNotification\<close> is \<^verbatim>\<open>{ step: activeStep.id, ...ex }\<close> and the active step is
  unchanged. If it succeeds, then afterwards \<^verbatim>\<open>isInProgress\<close> is false, \<^verbatim>\<open>stepNotification\<close>
  is undefined, \<^verbatim>\<open>goToNextStep\<close> has been called once, and the active step is the entry
  of \<open>nav\<close> one position after the previous active step.
\<close>

theorem onNext_applyStorage:
  assumes nav: "map ident nav = getFlattenedStepsIds (stepsOrder isBootIso (storageScenarioId s))"
      and act: "activeStep s \<in> set nav"
      and aid: "ident (activeStep s) = ''disk-encryption''
                \<or> ident (activeStep s) = ''mount-point-mapping''"
  shows "let s1 = onNext nav partitioning s;
             failed = applyStorage_settled nav (activeStep s) (Failed ex) s1;
             done = applyStorage_settled nav (activeStep s) Succeeded s1
         in isInProgress s1 \<and>
            calls s1 = calls s @
              [if ident (activeStep s) = ''disk-encryption''
               then ApplyStorage None (Some (encrypt (storageEncryption s)))
                      (Some (password (storageEncryption s)))
               else ApplyStorage partitioning None None] \<and>
            activeStep s1 = activeStep s \<and>
            \<not> isInProgress failed \<and>
            stepNotification failed = Some ([''step'' \<mapsto> ident (activeStep s)] ++ ex) \<and>
            activeStep failed = activeStep s \<and>
            \<not> isInProgress done \<and> stepNotification done = None \<and>
            calls done = calls s1 @ [GoToNextStep] \<and>
            (\<exists>i. Suc i < length nav \<and> nav ! i = activeStep s \<and> activeStep done = nav ! Suc i)"
proof -
  let ?s1 = "onNext nav partitioning s"
  have s1: "isInProgress ?s1" "activeStep ?s1 = activeStep s"
    "calls ?s1 = calls s @
              [if ident (activeStep s) = ''disk-encryption''
               then ApplyStorage None (Some (encrypt (storageEncryption s)))
                      (Some (password (storageEncryption s)))
               else ApplyStorage partitioning None None]"
    using aid by (auto simp: onNext_def invoke_def Let_def)
  have f: "\<not> isInProgress (onFail (activeStep s) ex ?s1)"
    "stepNotification (onFail (activeStep s) ex ?s1)
       = Some ([''step'' \<mapsto> ident (activeStep s)] ++ ex)"
    "activeStep (onFail (activeStep s) ex ?s1) = activeStep s"
    using s1(2) by (simp_all add: onFail_def invoke_def)
  from nav_position[OF nav_distinct[OF nav] act]
  obtain i where i: "i < length nav" "nav ! i = activeStep s"
    "findIndex (\<lambda>x. ident x = ident (activeStep s)) nav = int i" by blast
  have "ident (nav ! i) \<noteq> ''installation-review''" using i(2) aid by auto
  from nav_not_last[OF nav i(1) this] have si: "Suc i < length nav" .
  have g: "activeStep (goToNextStep nav ?s1) = nav ! Suc i"
    "calls (goToNextStep nav ?s1) = calls ?s1 @ [GoToNextStep]"
    using goToNextStep_advances[of i nav ?s1] i si s1(2) by simp_all
  have d: "\<not> isInProgress (onSuccess nav ?s1)" "stepNotification (onSuccess nav ?s1) = None"
    "calls (onSuccess nav ?s1) = calls ?s1 @ [GoToNextStep]"
    "activeStep (onSuccess nav ?s1) = nav ! Suc i"
    using g by (simp_all add: onSuccess_def)
  show ?thesis
    unfolding Let_def applyStorage_settled_def outcome.case
    using s1 f d si i(2) by blast
qed

text \<open>
  The theorem outside boot mode with an automatic scenario, on the disk encryption step:
  after a success the review step is active and the notification is gone.
\<close>

theorem onNext_applyStorage_witness:
  "activeStep
     (applyStorage_settled
        [\<lparr>ident = ''installation-method'', name = ''Installation method''\<rparr>,
         \<lparr>ident = ''disk-encryption'', name = ''Disk encryption''\<rparr>,
         \<lparr>ident = ''installation-review'', name = ''Review and install''\<rparr>]
        \<lparr>ident = ''disk-encryption'', name = ''Disk encryption''\<rparr> Succeeded
        (onNext
           [\<lparr>ident = ''installation-method'', name = ''Installation method''\<rparr>,
            \<lparr>ident = ''disk-encryption'', name = ''Disk encryption''\<rparr>,
            \<lparr>ident = ''installation-review'', name = ''Review and install''\<rparr>]
           None
           (mounted \<lparr>encrypt = True, password = ''secret''\<rparr> ''erase-all''
              \<lparr>ident = ''disk-encryption'', name = ''Disk encryption''\<rparr>)))
   = \<lparr>ident = ''installation-review'', name = ''Review and install''\<rparr> \<and>
   stepNotification
     (applyStorage_settled
        [\<lparr>ident = ''installation-method'', name = ''Installation method''\<rparr>,
         \<lparr>ident = ''disk-encryption'', name = ''Disk encryption''\<rparr>,
         \<lparr>ident = ''installation-review'', name = ''Review and install''\<rparr>]
        \<lparr>ident = ''disk-encryption'', name = ''Disk encryption''\<rparr> Succeeded
        (onNext
           [\<lparr>ident = ''installation-method'', name = ''Installation method''\<rparr>,
            \<lparr>ident = ''disk-encryption'', name = ''Disk encryption''\<rparr>,
            \<lparr>ident = ''installation-review'', name = ''Review and install''\<rparr>]
           None
           (mounted \<lparr>encrypt = True, password = ''secret''\<rparr> ''erase-all''
              \<lparr>ident = ''disk-encryption'', name = ''Disk encryption''\<rparr>)))
   = None"
proof -
  let ?nav = "[\<lparr>ident = ''installation-method'', name = ''Installation method''\<rparr>,
         \<lparr>ident = ''disk-encryption'', name = ''Disk encryption''\<rparr>,
         \<lparr>ident = ''installation-review'', name = ''Review and install''\<rparr>]"
  let ?a = "\<lparr>ident = ''disk-encryption'', name = ''Disk encryption''\<rparr>"
  let ?s = "mounted \<lparr>encrypt = True, password = ''secret''\<rparr> ''erase-all'' ?a"
  have a: "activeStep ?s = ?a" by (simp add: mounted_def)
  have h1: "map ident ?nav = getFlattenedStepsIds (stepsOrder False (storageScenarioId ?s))"
    by (simp add: flattened_stepsOrder mounted_def)
  have h2: "activeStep ?s \<in> set ?nav" by (simp add: mounted_def)
  have h3: "ident (activeStep ?s) = ''disk-encryption''
            \<or> ident (activeStep ?s) = ''mount-point-mapping''"
    by (simp add: mounted_def)
  let ?done = "applyStorage_settled ?nav ?a Succeeded (onNext ?nav None ?s)"
  from onNext_applyStorage[OF h1 h2 h3, of None Map.empty]
  have n: "stepNotification ?done = None"
    and e: "\<exists>i. Suc i < length ?nav \<and> ?nav ! i = ?a \<and> activeStep ?done = ?nav ! Suc i"
    unfolding Let_def a by blast+
  from e obtain i where i: "Suc i < length ?nav" "?nav ! i = ?a" "activeStep ?done = ?nav ! Suc i"
    by blast
  from i(1) have "i = 0 \<or> i = 1" by auto
  with i(2) have "i = 1" by auto
  with i(3) have "activeStep ?done = \<lparr>ident = ''installation-review'', name = ''Review and install''\<rparr>"
    by simp
  with n show ?thesis by simp
qed

text \<open>
  Claim C9. While the footer is shown, a click on the Quit (or Reboot) button sets
  \<^verbatim>\<open>quitWaitsConfirmation\<close> and makes no outside call, so \<^verbatim>\<open>exitGui\<close> is not called. In the
  modal that is then open, a click on cancel clears \<^verbatim>\<open>quitWaitsConfirmation\<close> and makes no
  outside call either, and a click on confirm makes exactly one outside call, which is
  \<^verbatim>\<open>exitGui\<close>.
\<close>

theorem quit_confirmation:
  assumes "\<not> isInstallationProgress s" "\<not> isInProgress s"
  shows "\<exists>s1. click nav isBootIso partitioning QuitBtn s = Some s1 \<and>
           quitWaitsConfirmation s1 \<and> calls s1 = calls s \<and>
           (\<exists>s2. click nav isBootIso partitioning QuitCancelBtn s1 = Some s2 \<and>
                  \<not> quitWaitsConfirmation s2 \<and> calls s2 = calls s1) \<and>
           (\<exists>s3. click nav isBootIso partitioning QuitConfirmBtn s1 = Some s3 \<and>
                  calls s3 = calls s1 @ [ExitGui])"
  using assms by (simp add: click_def clickable_def handler_def exitGui_def invoke_def)

text \<open>The theorem right after mounting outside boot mode, on the first step.\<close>

theorem quit_confirmation_witness:
  "\<exists>s1. click [] False None QuitBtn
           (mounted \<lparr>encrypt = False, password = []\<rparr> ''erase-all''
              \<lparr>ident = ''installation-method'', name = ''Installation method''\<rparr>) = Some s1 \<and>
        quitWaitsConfirmation s1 \<and> calls s1 = [] \<and>
        (\<exists>s3. click [] False None QuitConfirmBtn s1 = Some s3 \<and> calls s3 = [ExitGui])"
proof -
  let ?s = "mounted \<lparr>encrypt = False, password = []\<rparr> ''erase-all''
              \<lparr>ident = ''installation-method'', name = ''Installation method''\<rparr>"
  have h: "\<not> isInstallationProgress ?s" "\<not> isInProgress ?s" "calls ?s = []"
    by (simp_all add: mounted_def)
  from quit_confirmation[OF h(1,2), of "[]" False None] h(3) show ?thesis by auto
qed

lemma invoke_quitWaitsConfirmation:
  "quitWaitsConfirmation (invoke c s) = quitWaitsConfirmation s"
  by (simp add: invoke_def)

lemma goToNextStep_quitWaitsConfirmation:
  "quitWaitsConfirmation (goToNextStep nav s) = quitWaitsConfirmation s"
  by (simp add: goToNextStep_def invoke_def Let_def)

lemma goToPrevStep_quitWaitsConfirmation:
  "quitWaitsConfirmation (goToPrevStep nav s) = quitWaitsConfirmation s"
  by (simp add: goToPrevStep_def invoke_def Let_def)

lemma onNext_quitWaitsConfirmation:
  "quitWaitsConfirmation (onNext nav partitioning s) = quitWaitsConfirmation s"
  by (simp add: onNext_def Let_def invoke_quitWaitsConfirmation
        goToNextStep_quitWaitsConfirmation)

lemma onBack_quitWaitsConfirmation:
  "quitWaitsConfirmation (onBack nav s) = quitWaitsConfirmation s"
  by (simp add: onBack_def goToPrevStep_quitWaitsConfirmation)

lemma handler_quitWaitsConfirmation:
  "c \<noteq> QuitBtn \<Longrightarrow> c \<noteq> QuitCancelBtn \<Longrightarrow> c \<noteq> QuitModalClose \<Longrightarrow>
   quitWaitsConfirmation (handler nav partitioning c s) = quitWaitsConfirmation s"
  by (cases c)
     (simp_all add: handler_def exitGui_def invoke_quitWaitsConfirmation
        onBack_quitWaitsConfirmation onNext_quitWaitsConfirmation)

text \<open>
  Claim C10. While the quit modal is open, a click on confirm changes nothing of the
  wizard's or the footer's state: the state afterwards is the state before with one more
  recorded call, \<^verbatim>\<open>exitGui\<close>, and \<^verbatim>\<open>quitWaitsConfirmation\<close> is still true. Of all controls
  of the footer and the modal, the ones after which \<^verbatim>\<open>quitWaitsConfirmation\<close> is false are
  exactly the cancel button and the close handler of the modal.
\<close>

theorem quit_confirm_frame:
  assumes "click nav isBootIso partitioning c s = Some s'"
      and "quitWaitsConfirmation s"
  shows "(c = QuitConfirmBtn \<longrightarrow>
            s' = s\<lparr>calls := calls s @ [ExitGui]\<rparr> \<and> quitWaitsConfirmation s') \<and>
         (\<not> quitWaitsConfirmation s' \<longleftrightarrow> c = QuitCancelBtn \<or> c = QuitModalClose)"
proof -
  from assms(1) have s': "s' = handler nav partitioning c s"
    by (auto simp: click_def split: if_splits)
  have confirm: "c = QuitConfirmBtn \<longrightarrow>
      s' = s\<lparr>calls := calls s @ [ExitGui]\<rparr> \<and> quitWaitsConfirmation s'"
    using s' assms(2) by (simp add: handler_def exitGui_def invoke_def)
  have "\<not> quitWaitsConfirmation s' \<longleftrightarrow> c = QuitCancelBtn \<or> c = QuitModalClose"
  proof (cases "c = QuitBtn \<or> c = QuitCancelBtn \<or> c = QuitModalClose")
    case True
    then show ?thesis using s' by (auto simp: handler_def)
  next
    case False
    then show ?thesis
      using handler_quitWaitsConfirmation[of c nav partitioning s] s' assms(2) by simp
  qed
  with confirm show ?thesis by blast
qed

text \<open>The theorem for the confirm button, with the modal open right after mounting.\<close>

theorem quit_confirm_frame_witness:
  "click [] False None QuitConfirmBtn
     ((mounted \<lparr>encrypt = False, password = []\<rparr> ''erase-all''
         \<lparr>ident = ''installation-method'', name = ''Installation method''\<rparr>)
        \<lparr>quitWaitsConfirmation := True\<rparr>)
   = Some ((mounted \<lparr>encrypt = False, password = []\<rparr> ''erase-all''
         \<lparr>ident = ''installation-method'', name = ''Installation method''\<rparr>)
        \<lparr>quitWaitsConfirmation := True, calls := [ExitGui]\<rparr>) \<and>
   quitWaitsConfirmation ((mounted \<lparr>encrypt = False, password = []\<rparr> ''erase-all''
         \<lparr>ident = ''installation-method'', name = ''Installation method''\<rparr>)
        \<lparr>quitWaitsConfirmation := True, calls := [ExitGui]\<rparr>)"
proof -
  let ?s = "(mounted \<lparr>encrypt = False, password = []\<rparr> ''erase-all''
         \<lparr>ident = ''installation-method'', name = ''Installation method''\<rparr>)
        \<lparr>quitWaitsConfirmation := True\<rparr>"
  let ?s' = "(mounted \<lparr>encrypt = False, password = []\<rparr> ''erase-all''
         \<lparr>ident = ''installation-method'', name = ''Installation method''\<rparr>)
        \<lparr>quitWaitsConfirmation := True, calls := [ExitGui]\<rparr>"
  have h1: "click [] False None QuitConfirmBtn ?s = Some ?s'"
    by (simp add: click_def clickable_def handler_def exitGui_def invoke_def mounted_def)
  have h2: "quitWaitsConfirmation ?s" by simp
  from quit_confirm_frame[OF h1 h2] have q: "quitWaitsConfirmation ?s'" by blast
  from h1 q show ?thesis by (rule conjI)
qed

end
